theory Spec2Isabelle
  imports Main "HOL-Library.AList"
begin

section \<open>Dropping dataset content: the model of \<^verbatim>\<open>datalad/distribution/drop.py\<close>\<close>

text \<open>
  The module holds the generator \<^verbatim>\<open>_drop_files\<close> and the command
  \<^verbatim>\<open>Drop.__call__\<close>. Both are generators that call collaborators with effects
  (the path grouping, the dirty-dataset guard, the annex). A run of a generator that is
  consumed to its end is modelled by the list of its events, in order: the results it
  yields and the calls it makes to the guard and to the annex. The collaborators that live
  outside the module are the fields of an environment record; they read and change a
  world \<open>'w\<close> (the file system and the repositories), which is passed through the calls.
\<close>

subsection \<open>Paths (Python's \<^verbatim>\<open>os.path\<close> on POSIX)\<close>

definition isabs :: "string \<Rightarrow> bool" where
  "isabs s = (case s of [] \<Rightarrow> False | c # _ \<Rightarrow> c = CHR ''/'')"

text \<open>\<^verbatim>\<open>opj\<close> is \<^verbatim>\<open>os.path.join\<close> with two arguments.\<close>

definition opj :: "string \<Rightarrow> string \<Rightarrow> string" where
  "opj a b =
     (if isabs b then b
      else if a = [] \<or> last a = CHR ''/'' then a @ b
      else a @ ''/'' @ b)"

fun split_slash :: "string \<Rightarrow> string list" where
  "split_slash [] = [[]]"
| "split_slash (c # cs) =
     (if c = CHR ''/'' then [] # split_slash cs
      else (case split_slash cs of [] \<Rightarrow> [[c]] | x # xs \<Rightarrow> (c # x) # xs))"

fun join_slash :: "string list \<Rightarrow> string" where
  "join_slash [] = []"
| "join_slash [x] = x"
| "join_slash (x # y # zs) = x @ ''/'' @ join_slash (y # zs)"

fun norm_comps :: "bool \<Rightarrow> string list \<Rightarrow> string list \<Rightarrow> string list" where
  "norm_comps initial_slashes [] new_comps = new_comps"
| "norm_comps initial_slashes (cmp # comps) new_comps =
     (if cmp = [] \<or> cmp = ''.'' then norm_comps initial_slashes comps new_comps
      else if cmp \<noteq> ''..'' \<or> (\<not> initial_slashes \<and> new_comps = [])
                \<or> (new_comps \<noteq> [] \<and> last new_comps = ''..'')
        then norm_comps initial_slashes comps (new_comps @ [cmp])
      else if new_comps \<noteq> [] then norm_comps initial_slashes comps (butlast new_comps)
      else norm_comps initial_slashes comps new_comps)"

definition normpath :: "string \<Rightarrow> string" where
  "normpath p =
     (if p = [] then ''.''
      else
        let initial_slashes =
              (if isabs p
               then (if take 2 p = ''//'' \<and> take 3 p \<noteq> ''///'' then 2 else 1)
               else (0::nat));
            comps = norm_comps (initial_slashes \<noteq> 0) (split_slash p) [];
            q = replicate initial_slashes CHR ''/'' @ join_slash comps
        in if q = [] then ''.'' else q)"

text \<open>
  The path of a result (line 85 of the module):
  \<^verbatim>\<open>p if isabs(p) else normpath(opj(ds.path, p))\<close>.
\<close>

definition respath :: "string \<Rightarrow> string \<Rightarrow> string" where
  "respath ds_path p = (if isabs p then p else normpath (opj ds_path p))"

subsection \<open>Result records\<close>

datatype status = Ok | Notneeded | Impossible | Error

datatype rtype = File | Directory | DatasetType

text \<open>
  A message is a string, or a format string with its arguments (Python's tuple
  \<^verbatim>\<open>(fmt, arg, ...)\<close>), rendered later with the \<^verbatim>\<open>%\<close> operator.
\<close>

datatype message = Msg string | MsgFmt string "string list"

fun render :: "string \<Rightarrow> string list \<Rightarrow> string" where
  "render (c # d # cs) (a # args) =
     (if c = CHR ''%'' \<and> d = CHR ''s'' then a @ render cs args
      else c # render (d # cs) (a # args))"
| "render cs args = cs"

fun render_message :: "message \<Rightarrow> string" where
  "render_message (Msg s) = s"
| "render_message (MsgFmt fmt args) = render fmt args"

text \<open>
  The keyword payload \<^verbatim>\<open>**kwargs\<close> of the results: the keys that the command passes
  (\<^verbatim>\<open>res_kwargs = dict(action='drop', logger=lgr, refds=refds_path)\<close>); a key that is
  absent is \<open>None\<close>.
\<close>

record kwargs =
  kw_action :: "string option"
  kw_logger :: "string option"
  kw_refds :: "string option"

record status_dict =
  r_action :: "string option"
  r_path :: string
  r_type :: "rtype option"
  r_logger :: "string option"
  r_refds :: "string option"
  r_status :: status
  r_message :: "message option"

text \<open>
  Modelled from the spec: \<^verbatim>\<open>get_status_dict\<close> (datalad.interface.results) is not
  in the module. It builds the StatusRecord of the data model from its keyword arguments:
  \<open>path\<close>, \<open>action\<close>, \<open>status\<close>, \<open>message\<close>, \<open>refds\<close>, \<open>type\<close> (and the logger that
  the command passes along).
\<close>

definition get_status_dict ::
  "status \<Rightarrow> string \<Rightarrow> message option \<Rightarrow> rtype option \<Rightarrow> kwargs \<Rightarrow> status_dict" where
  "get_status_dict st p msg ty kw =
     \<lparr>r_action = kw_action kw, r_path = p, r_type = ty, r_logger = kw_logger kw,
      r_refds = kw_refds kw, r_status = st, r_message = msg\<rparr>"

subsection \<open>Arguments\<close>

text \<open>
  \<^verbatim>\<open>path\<close> is \<^verbatim>\<open>None\<close>, one string or a list of strings; \<^verbatim>\<open>dataset\<close> is
  \<^verbatim>\<open>None\<close>, a path string or a \<^verbatim>\<open>Dataset\<close> object, which is identified by its
  root path.
\<close>

datatype path_arg = PNone | PStr string | PList "string list"

datatype dataset_arg = DNone | DStr string | DObj string

datatype if_dirty_mode = SaveBefore | Ignore | Fail

text \<open>Python's truth value of the two arguments (\<^verbatim>\<open>if dataset and not path\<close>).\<close>

fun path_truthy :: "path_arg \<Rightarrow> bool" where
  "path_truthy PNone = False"
| "path_truthy (PStr s) = (s \<noteq> [])"
| "path_truthy (PList ps) = (ps \<noteq> [])"

fun dataset_truthy :: "dataset_arg \<Rightarrow> bool" where
  "dataset_truthy DNone = False"
| "dataset_truthy (DStr s) = (s \<noteq> [])"
| "dataset_truthy (DObj p) = True"

text \<open>\<^verbatim>\<open>dataset.path if isinstance(dataset, Dataset) else dataset\<close>\<close>

fun dataset_path :: "dataset_arg \<Rightarrow> string option" where
  "dataset_path DNone = None"
| "dataset_path (DStr s) = Some s"
| "dataset_path (DObj p) = Some p"

text \<open>
  Modelled from the spec: \<^verbatim>\<open>assure_list\<close> (datalad.utils) is not in the module. The
  module documents \<^verbatim>\<open>paths : path or list(path)\<close> and calls it to "always ... make
  sure that we pass a list": a list stays as it is, one path becomes the list of that
  path, \<^verbatim>\<open>None\<close> the empty list.
\<close>

fun assure_list :: "path_arg \<Rightarrow> string list" where
  "assure_list PNone = []"
| "assure_list (PStr s) = [s]"
| "assure_list (PList ps) = ps"

subsection \<open>The collaborators\<close>

datatype error = DirtyDataset string | PrepError string

text \<open>A raw outcome of the annex: the path it is about, an outcome code and a note.\<close>

record raw_outcome =
  raw_path :: string
  raw_code :: string
  raw_note :: "string option"

type_synonym content_by_ds = "(string \<times> string list) list"

text \<open>
  \<^item> \<open>prep\<close> is \<^verbatim>\<open>Interface._prep\<close>: the dictionary from dataset paths to the paths
    in each (an association list in the order of iteration, its keys distinct) and the
    paths that do not exist;
  \<^item> \<open>is_dirty\<close> and \<open>save\<close> are what the guard \<^verbatim>\<open>handle_dirty_datasets\<close> needs;
  \<^item> \<open>has_drop\<close> is \<^verbatim>\<open>hasattr(Dataset(ds_path).repo, 'drop')\<close>;
  \<^item> \<open>repo_drop\<close> is \<^verbatim>\<open>ds.repo.drop(paths, options=opts)\<close>, which changes the world;
  \<^item> \<open>outcome_status\<close> is the mapping from the codes of the annex to the statuses;
  \<^item> \<open>success_status_map\<close> is the table of that name (datalad.interface.results);
  \<^item> \<open>isdir\<close> and \<open>tracked_contentless\<close> are the two tests of the reconciliation.
\<close>

record 'w env =
  prep :: "'w \<Rightarrow> path_arg \<Rightarrow> dataset_arg \<Rightarrow> bool \<Rightarrow> nat option
            \<Rightarrow> error + (content_by_ds \<times> string list)"
  is_dirty :: "'w \<Rightarrow> string \<Rightarrow> bool"
  save :: "'w \<Rightarrow> string \<Rightarrow> 'w"
  has_drop :: "'w \<Rightarrow> string \<Rightarrow> bool"
  repo_drop :: "'w \<Rightarrow> string \<Rightarrow> string list \<Rightarrow> string list \<Rightarrow> raw_outcome list \<times> 'w"
  outcome_status :: "string \<Rightarrow> status"
  success_status_map :: "status \<Rightarrow> string"
  isdir :: "'w \<Rightarrow> string \<Rightarrow> bool"
  tracked_contentless :: "'w \<Rightarrow> string \<Rightarrow> bool"

datatype event =
    Yield status_dict
  | HandleDirty "string list" if_dirty_mode dataset_arg
  | RepoDrop string "string list" "string list"

text \<open>
  Modelled from the spec: \<^verbatim>\<open>results_from_paths\<close> (datalad.interface.results) is not
  in the module. One record for every path, with the given status and the message with
  the path in the place of \<^verbatim>\<open>%s\<close> ("path does not exist: missing.txt").
\<close>

definition results_from_paths ::
  "string list \<Rightarrow> status \<Rightarrow> string \<Rightarrow> kwargs \<Rightarrow> status_dict list" where
  "results_from_paths ps st msg kw =
     map (\<lambda>p. get_status_dict st p (Some (MsgFmt msg [p])) None kw) ps"

text \<open>
  Modelled from the spec: \<^verbatim>\<open>handle_dirty_datasets\<close> (datalad.interface.utils) is not
  in the module. The Cleanliness Guard: \<open>save-before\<close> commits the pending changes of the
  dirty datasets, \<open>ignore\<close> proceeds regardless, \<open>fail\<close> aborts the whole operation if
  any dataset is dirty.
\<close>

definition handle_dirty_datasets ::
  "'w env \<Rightarrow> 'w \<Rightarrow> string list \<Rightarrow> if_dirty_mode \<Rightarrow> dataset_arg \<Rightarrow> error + 'w" where
  "handle_dirty_datasets E w dpaths mode base =
     (case mode of
        Ignore \<Rightarrow> Inr w
      | Fail \<Rightarrow>
          (case filter (is_dirty E w) dpaths of
             [] \<Rightarrow> Inr w
           | d # _ \<Rightarrow> Inl (DirtyDataset d))
      | SaveBefore \<Rightarrow>
          Inr (fold (\<lambda>d v. if is_dirty E v d then save E v d else v) dpaths w))"

text \<open>
  Modelled from the spec: \<^verbatim>\<open>annexjson2result\<close> (datalad.interface.results) is not in
  the module. A raw outcome names a path and an outcome code; it becomes a StatusRecord
  with the absolute, normalised path, the status that the fixed mapping gives the code and
  the note of the annex as the message.
\<close>

definition annexjson2result ::
  "'w env \<Rightarrow> raw_outcome \<Rightarrow> string \<Rightarrow> rtype \<Rightarrow> kwargs \<Rightarrow> status_dict" where
  "annexjson2result E res ds_path ty kw =
     get_status_dict (outcome_status E (raw_code res)) (respath ds_path (raw_path res))
       (map_option Msg (raw_note res)) (Some ty) kw"

text \<open>
  The dictionary \<^verbatim>\<open>respath_by_status\<close>, from a key of \<^verbatim>\<open>success_status_map\<close> to the
  list of paths reported with it; \<open>reported\<close> is the test
  \<^verbatim>\<open>any(p in ps for ps in respath_by_status.values())\<close>.
\<close>

type_synonym respath_by_status = "(string \<times> string list) list"

definition dict_get :: "respath_by_status \<Rightarrow> string \<Rightarrow> string list" where
  "dict_get d k = (case map_of d k of None \<Rightarrow> [] | Some ps \<Rightarrow> ps)"

definition reported :: "respath_by_status \<Rightarrow> string \<Rightarrow> bool" where
  "reported d p = list_ex (\<lambda>(k, ps). p \<in> set ps) d"

text \<open>
  Modelled from the spec: \<^verbatim>\<open>results_from_annex_noinfo\<close> (datalad.interface.results)
  is not in the module. The Result Reconciler: for every requested path not present in any
  reported set, if it is a directory, \<open>impossible\<close> with the directory-failure message
  about the dataset and the path; else \<open>notneeded\<close> with the message
  "nothing to drop from <path>" if the path exists as a tracked-but-contentless file, or
  \<open>notneeded\<close> with the message for a path without annexed content. The three messages
  are the arguments of the call in the module.
\<close>

definition noinfo_result ::
  "'w env \<Rightarrow> 'w \<Rightarrow> string \<Rightarrow> string \<Rightarrow> string \<Rightarrow> string \<Rightarrow> string \<Rightarrow> kwargs \<Rightarrow> status_dict" where
  "noinfo_result E w ds_path p dir_fail_msg noinfo_dir_msg noinfo_file_msg kw =
     (if isdir E w p
        then get_status_dict Impossible p (Some (MsgFmt dir_fail_msg [ds_path, p])) None kw
      else if tracked_contentless E w p
        then get_status_dict Notneeded p (Some (MsgFmt noinfo_dir_msg [p])) None kw
      else get_status_dict Notneeded p (Some (Msg noinfo_file_msg)) None kw)"

fun results_from_annex_noinfo ::
  "'w env \<Rightarrow> 'w \<Rightarrow> string \<Rightarrow> string list \<Rightarrow> respath_by_status
     \<Rightarrow> string \<Rightarrow> string \<Rightarrow> string \<Rightarrow> kwargs \<Rightarrow> status_dict list" where
  "results_from_annex_noinfo E w ds_path [] d dfm ndm nfm kw = []"
| "results_from_annex_noinfo E w ds_path (p # ps) d dfm ndm nfm kw =
     (if reported d (respath ds_path p)
        then results_from_annex_noinfo E w ds_path ps d dfm ndm nfm kw
      else noinfo_result E w ds_path (respath ds_path p) dfm ndm nfm kw
             # results_from_annex_noinfo E w ds_path ps d dfm ndm nfm kw)"

subsection \<open>\<^verbatim>\<open>_drop_files\<close>\<close>

text \<open>Lines 76 and 77: the action of the results is \<open>drop\<close> unless the caller gave one.\<close>

definition default_action :: "kwargs \<Rightarrow> kwargs" where
  "default_action kw =
     (if kw_action kw = None then kw\<lparr>kw_action := Some ''drop''\<rparr> else kw)"

text \<open>
  Lines 92 to 99: every raw outcome becomes a result, which is yielded, and its path is
  appended to the entry of \<^verbatim>\<open>respath_by_status\<close> for its success class.
\<close>

fun annex_results ::
  "'w env \<Rightarrow> string \<Rightarrow> kwargs \<Rightarrow> raw_outcome list \<Rightarrow> respath_by_status
     \<Rightarrow> status_dict list \<times> respath_by_status" where
  "annex_results E ds_path kw [] d = ([], d)"
| "annex_results E ds_path kw (raw # raws) d =
     (let res = annexjson2result E raw ds_path File kw;
          success = success_status_map E (r_status res);
          d' = AList.update success (dict_get d success @ [r_path res]) d;
          (rs, d'') = annex_results E ds_path kw raws d'
      in (res # rs, d''))"

definition drop_files ::
  "'w env \<Rightarrow> 'w \<Rightarrow> string \<Rightarrow> path_arg \<Rightarrow> bool \<Rightarrow> bool \<Rightarrow> kwargs \<Rightarrow> event list \<times> 'w" where
  "drop_files E w ds_path paths_arg check noannex_iserror kwargs0 =
     (let kw = default_action kwargs0;
          paths = assure_list paths_arg
      in if \<not> has_drop E w ds_path
         then (map (\<lambda>p. Yield (get_status_dict
                                 (if noannex_iserror then Impossible else Notneeded)
                                 (respath ds_path p)
                                 (Some (Msg ''no annex'ed content''))
                                 None kw)) paths,
               w)
         else
           let opts = (if \<not> check then [''--force''] else []);
               (raws, w') = repo_drop E w ds_path paths opts;
               (rs, respath_by_status) = annex_results E ds_path kw raws [];
               noinfo = results_from_annex_noinfo E w' ds_path paths respath_by_status
                          ''could not drop some content in %s %s''
                          ''nothing to drop from %s''
                          ''no annex'ed content'' kw
           in (RepoDrop ds_path paths opts # map Yield rs @ map Yield noinfo, w'))"

subsection \<open>\<^verbatim>\<open>Drop.__call__\<close>\<close>

text \<open>
  Lines 189 to 193: the loop over the datasets. \<^verbatim>\<open>_drop_files\<close> is called with
  \<^verbatim>\<open>check=check\<close> and the payload; \<^verbatim>\<open>noannex_iserror\<close> keeps its default.
\<close>

fun drop_datasets ::
  "'w env \<Rightarrow> 'w \<Rightarrow> content_by_ds \<Rightarrow> bool \<Rightarrow> kwargs \<Rightarrow> event list \<times> 'w" where
  "drop_datasets E w [] check kw = ([], w)"
| "drop_datasets E w ((ds_path, paths) # rest) check kw =
     (let (evs, w') = drop_files E w ds_path (PList paths) check False kw;
          (evs', w'') = drop_datasets E w' rest check kw
      in (evs @ evs', w''))"

definition lgr :: string where
  "lgr = ''datalad.distribution.drop''"

text \<open>
  The command, without its decorators: the events of the generator, the exception that
  ended it (if one did) and the world it leaves.
\<close>

definition effective_path :: "path_arg \<Rightarrow> dataset_arg \<Rightarrow> path_arg" where
  "effective_path path0 dataset =
     (if dataset_truthy dataset \<and> \<not> path_truthy path0
      then (case dataset_path dataset of Some p \<Rightarrow> PStr p | None \<Rightarrow> PNone)
      else path0)"

definition res_kwargs :: "dataset_arg \<Rightarrow> kwargs" where
  "res_kwargs dataset =
     \<lparr>kw_action = Some ''drop'', kw_logger = Some lgr, kw_refds = dataset_path dataset\<rparr>"

definition after_prep ::
  "'w env \<Rightarrow> 'w \<Rightarrow> dataset_arg \<Rightarrow> bool \<Rightarrow> if_dirty_mode \<Rightarrow> content_by_ds \<Rightarrow> string list
     \<Rightarrow> event list \<times> error option \<times> 'w" where
  "after_prep E w dataset check if_dirty content_by_ds unavailable_paths =
     (let unavailable = map Yield (results_from_paths unavailable_paths Notneeded
                                     ''path does not exist: %s'' (res_kwargs dataset));
          guard = HandleDirty (map fst content_by_ds) if_dirty dataset
      in case handle_dirty_datasets E w (map fst content_by_ds) if_dirty dataset of
           Inl e \<Rightarrow> (unavailable @ [guard], Some e, w)
         | Inr w1 \<Rightarrow>
             (let (evs, w2) = drop_datasets E w1 content_by_ds check (res_kwargs dataset)
              in (unavailable @ [guard] @ evs, None, w2)))"

definition Drop_call ::
  "'w env \<Rightarrow> 'w \<Rightarrow> path_arg \<Rightarrow> dataset_arg \<Rightarrow> bool \<Rightarrow> nat option \<Rightarrow> bool \<Rightarrow> if_dirty_mode
     \<Rightarrow> event list \<times> error option \<times> 'w" where
  "Drop_call E w path0 dataset recursive recursion_limit check if_dirty =
     (case prep E w (effective_path path0 dataset) dataset recursive recursion_limit of
        Inl e \<Rightarrow> ([], Some e, w)
      | Inr (content_by_ds, unavailable_paths) \<Rightarrow>
          after_prep E w dataset check if_dirty content_by_ds unavailable_paths)"

subsection \<open>Reading a run\<close>

text \<open>The results a run yields, its calls to the annex and the number of its guard calls.\<close>

fun yielded :: "event list \<Rightarrow> status_dict list" where
  "yielded [] = []"
| "yielded (Yield r # es) = r # yielded es"
| "yielded (e # es) = yielded es"

fun repo_drops :: "event list \<Rightarrow> (string \<times> string list \<times> string list) list" where
  "repo_drops [] = []"
| "repo_drops (RepoDrop d ps opts # es) = (d, ps, opts) # repo_drops es"
| "repo_drops (e # es) = repo_drops es"

fun guard_calls :: "event list \<Rightarrow> nat" where
  "guard_calls [] = 0"
| "guard_calls (HandleDirty ds m b # es) = Suc (guard_calls es)"
| "guard_calls (e # es) = guard_calls es"

definition count_path :: "string \<Rightarrow> status_dict list \<Rightarrow> nat" where
  "count_path p rs = length (filter (\<lambda>r. r_path r = p) rs)"

text \<open>The rendered message of a result.\<close>

definition message_text :: "status_dict \<Rightarrow> string option" where
  "message_text r = map_option render_message (r_message r)"

text \<open>
  The paths that the grouping hands to the command, as the paths of their results: the
  unavailable paths, and the paths of every dataset.
\<close>

definition requested_paths :: "content_by_ds \<Rightarrow> string list \<Rightarrow> string list" where
  "requested_paths content_by_ds unavailable_paths =
     unavailable_paths @ concat (map (\<lambda>(d, ps). map (respath d) ps) content_by_ds)"

text \<open>The paths of the results that the annex reports for one call.\<close>

definition annex_reports :: "'w env \<Rightarrow> 'w \<Rightarrow> string \<Rightarrow> string list \<Rightarrow> string list \<Rightarrow> string list" where
  "annex_reports E w d ps opts =
     map (\<lambda>raw. respath d (raw_path raw)) (fst (repo_drop E w d ps opts))"

text \<open>
  A contract of the annex: called for a dataset of the grouping, it reports no path
  twice, and of the requested paths \<open>R\<close> only paths of that dataset's own list.
\<close>

definition reports_once :: "'w env \<Rightarrow> content_by_ds \<Rightarrow> string list \<Rightarrow> bool" where
  "reports_once E content_by_ds R =
     (\<forall>w opts d ps. (d, ps) \<in> set content_by_ds \<longrightarrow>
        distinct (annex_reports E w d ps opts) \<and>
        (\<forall>r \<in> set (annex_reports E w d ps opts). r \<in> set R \<longrightarrow> r \<in> respath d ` set ps))"

text \<open>
  The loop of the command once more, keeping for every dataset the world in which
  \<^verbatim>\<open>_drop_files\<close> starts and the events of that call.
\<close>

fun dataset_runs ::
  "'w env \<Rightarrow> 'w \<Rightarrow> content_by_ds \<Rightarrow> bool \<Rightarrow> kwargs \<Rightarrow> (string \<times> 'w \<times> event list) list" where
  "dataset_runs E w [] check kw = []"
| "dataset_runs E w ((ds_path, paths) # rest) check kw =
     (let (evs, w') = drop_files E w ds_path (PList paths) check False kw
      in (ds_path, w, evs) # dataset_runs E w' rest check kw)"

subsection \<open>A small world to run the model in\<close>

text \<open>
  One dataset at \<^verbatim>\<open>/ds\<close>: whether its repository is an annex, whether it is dirty, the
  paths that exist, the directories, the annexed files and the files whose content is
  present. The grouping keeps the request's entries as they are, in their order; the
  annex drops and reports the requested files whose content is present.
\<close>

record demo_world =
  annex :: bool
  dirty :: bool
  existing :: "string list"
  dirs :: "string list"
  tracked :: "string list"
  content :: "string list"

definition demo_env :: "demo_world env" where
  "demo_env =
     \<lparr>prep = (\<lambda>w path0 dataset recursive recursion_limit.
                Inr ([(''/ds'', filter (\<lambda>p. p \<in> set (existing w)) (assure_list path0))],
                     filter (\<lambda>p. p \<notin> set (existing w)) (assure_list path0))),
      is_dirty = (\<lambda>w d. dirty w),
      save = (\<lambda>w d. w\<lparr>dirty := False\<rparr>),
      has_drop = (\<lambda>w d. annex w),
      repo_drop = (\<lambda>w d ps opts.
                (map (\<lambda>p. \<lparr>raw_path = p, raw_code = ''ok'', raw_note = None\<rparr>)
                   (filter (\<lambda>p. p \<in> set (content w)) ps),
                 w\<lparr>content := filter (\<lambda>c. c \<notin> set ps) (content w)\<rparr>)),
      outcome_status = (\<lambda>c. if c = ''ok'' then Ok else Error),
      success_status_map = (\<lambda>s. if s = Ok \<or> s = Notneeded then ''success'' else ''failure''),
      isdir = (\<lambda>w p. p \<in> set (dirs w)),
      tracked_contentless = (\<lambda>w p. p \<in> set (tracked w) \<and> p \<notin> set (content w))\<rparr>"

definition plain_world :: demo_world where
  "plain_world =
     \<lparr>annex = False, dirty = False, existing = [''/ds'', ''/ds/a'', ''/ds/b''], dirs = [''/ds''],
      tracked = [], content = []\<rparr>"

definition annex_world :: demo_world where
  "annex_world =
     \<lparr>annex = True, dirty = False,
      existing = [''/ds'', ''/ds/a'', ''/ds/b'', ''/ds/c'', ''/ds/dir''],
      dirs = [''/ds'', ''/ds/dir''],
      tracked = [''/ds/a'', ''/ds/b''], content = [''/ds/a'']\<rparr>"

definition dirty_world :: demo_world where
  "dirty_world = annex_world\<lparr>dirty := True\<rparr>"

definition no_kwargs :: kwargs where
  "no_kwargs = \<lparr>kw_action = None, kw_logger = None, kw_refds = None\<rparr>"

text \<open>Two requests: one that names paths twice, and one with all kinds of paths.\<close>

definition twice_request :: path_arg where
  "twice_request = PList [''/ds/a'', ''/ds/a'', ''/ds/missing.txt'', ''/ds/missing.txt'']"

definition mixed_request :: path_arg where
  "mixed_request = PList [''/ds/a'', ''/ds/b'', ''/ds/c'', ''/ds/dir'', ''/ds/zz'']"

section \<open>Lemmas about runs\<close>

lemma yielded_append: "yielded (xs @ ys) = yielded xs @ yielded ys"
  by (induction xs rule: yielded.induct) simp_all

lemma yielded_map_Yield: "yielded (map Yield rs) = rs"
  by (induction rs) simp_all

lemma repo_drops_append: "repo_drops (xs @ ys) = repo_drops xs @ repo_drops ys"
  by (induction xs rule: repo_drops.induct) simp_all

lemma repo_drops_map_Yield: "repo_drops (map Yield rs) = []"
  by (induction rs) simp_all

lemma guard_calls_append: "guard_calls (xs @ ys) = guard_calls xs + guard_calls ys"
  by (induction xs rule: guard_calls.induct) simp_all

lemma guard_calls_map_Yield: "guard_calls (map Yield rs) = 0"
  by (induction rs) simp_all

lemma count_path_append: "count_path p (xs @ ys) = count_path p xs + count_path p ys"
  by (simp add: count_path_def)

lemma count_path_count_list: "count_path p rs = count_list (map r_path rs) p"
  by (induction rs) (simp_all add: count_path_def)

lemma render_path_missing: "render ''path does not exist: %s'' [p] = ''path does not exist: '' @ p"
  by simp

lemma render_dir_fail:
  "render ''could not drop some content in %s %s'' [d, p]
     = ''could not drop some content in '' @ d @ '' '' @ p"
  by simp

lemma render_noinfo_dir: "render ''nothing to drop from %s'' [p] = ''nothing to drop from '' @ p"
  by simp

lemma drop_files_noannex:
  "\<not> has_drop E w d \<Longrightarrow>
   drop_files E w d paths check nie kw =
     (map (\<lambda>p. Yield (get_status_dict (if nie then Impossible else Notneeded) (respath d p)
                        (Some (Msg ''no annex'ed content'')) None (default_action kw)))
        (assure_list paths), w)"
  by (simp add: drop_files_def)

lemma drop_files_annex:
  "has_drop E w d \<Longrightarrow>
   drop_files E w d paths check nie kw =
     (let opts = (if \<not> check then [''--force''] else []);
          raws = fst (repo_drop E w d (assure_list paths) opts);
          w' = snd (repo_drop E w d (assure_list paths) opts);
          rs = fst (annex_results E d (default_action kw) raws []);
          dict = snd (annex_results E d (default_action kw) raws [])
      in (RepoDrop d (assure_list paths) opts # map Yield rs
            @ map Yield (results_from_annex_noinfo E w' d (assure_list paths) dict
                 ''could not drop some content in %s %s'' ''nothing to drop from %s''
                 ''no annex'ed content'' (default_action kw)), w'))"
  by (simp add: drop_files_def Let_def split: prod.splits)

lemma reported_update:
  "reported (AList.update k (dict_get d k @ [x]) d) p \<longleftrightarrow> reported d p \<or> p = x"
proof (induction d)
  case Nil
  then show ?case by (simp add: reported_def dict_get_def)
next
  case (Cons kv d)
  obtain k' v' where kv: "kv = (k', v')" by (cases kv)
  show ?case
  proof (cases "k' = k")
    case True
    then show ?thesis using kv by (auto simp: reported_def dict_get_def)
  next
    case False
    have "dict_get (kv # d) k = dict_get d k"
      using False kv by (simp add: dict_get_def)
    then show ?thesis
      using Cons.IH False kv by (auto simp: reported_def)
  qed
qed

lemma annex_results_fst:
  "fst (annex_results E d kw raws dict) = map (\<lambda>raw. annexjson2result E raw d File kw) raws"
  by (induction raws arbitrary: dict) (simp_all add: Let_def split_beta)

lemma r_path_annexjson2result [simp]:
  "r_path (annexjson2result E raw d ty kw) = respath d (raw_path raw)"
  by (simp add: annexjson2result_def get_status_dict_def)

lemma annex_results_reported:
  "reported (snd (annex_results E d kw raws dict)) p \<longleftrightarrow>
     reported dict p \<or> p \<in> set (map (\<lambda>raw. respath d (raw_path raw)) raws)"
proof (induction raws arbitrary: dict)
  case Nil
  then show ?case by simp
next
  case (Cons raw raws)
  show ?case
    by (auto simp: Let_def split_beta Cons.IH reported_update)
qed

lemma r_path_noinfo_result [simp]:
  "r_path (noinfo_result E w d p a b c kw) = p"
  by (simp add: noinfo_result_def get_status_dict_def)

lemma noinfo_paths:
  "map r_path (results_from_annex_noinfo E w d ps dict a b c kw)
     = filter (\<lambda>q. \<not> reported dict q) (map (respath d) ps)"
  by (induction ps) simp_all

lemma reported_Nil [simp]: "\<not> reported [] p"
  by (simp add: reported_def)

lemma yielded_map_Yield': "yielded (map (\<lambda>p. Yield (f p)) ps) = map f ps"
  by (induction ps) simp_all

lemma drop_files_paths_annex:
  assumes "has_drop E w d"
  shows "map r_path (yielded (fst (drop_files E w d (PList ps) check nie kw)))
    = annex_reports E w d ps (if \<not> check then [''--force''] else [])
      @ filter (\<lambda>q. q \<notin> set (annex_reports E w d ps (if \<not> check then [''--force''] else [])))
          (map (respath d) ps)"
  using assms
  by (simp add: drop_files_annex Let_def yielded_append yielded_map_Yield yielded_map_Yield'
      annex_results_fst noinfo_paths annex_results_reported annex_reports_def comp_def)

lemma drop_files_paths_noannex:
  assumes "\<not> has_drop E w d"
  shows "map r_path (yielded (fst (drop_files E w d (PList ps) check nie kw)))
    = map (respath d) ps"
  using assms
  by (simp add: drop_files_noannex yielded_map_Yield' comp_def get_status_dict_def)

lemma count_list_mem: "x \<in> set xs \<Longrightarrow> 1 \<le> count_list xs x"
  by (induction xs) auto

lemma count_list_distinct: "distinct xs \<Longrightarrow> count_list xs x = (if x \<in> set xs then 1 else 0)"
  by (induction xs) auto

lemma count_list_concat:
  "count_list (concat xss) x = sum_list (map (\<lambda>xs. count_list xs x) xss)"
  by (induction xss) simp_all

lemma segment_count_ge1:
  assumes "q \<in> set ps"
  shows "1 \<le> count_list (map r_path (yielded (fst (drop_files E w d (PList ps) check nie kw))))
                 (respath d q)"
proof (cases "has_drop E w d")
  case True
  have "respath d q \<in> set (map r_path (yielded (fst (drop_files E w d (PList ps) check nie kw))))"
    unfolding drop_files_paths_annex [OF True] using assms by auto
  then show ?thesis by (rule count_list_mem)
next
  case False
  have "respath d q \<in> set (map r_path (yielded (fst (drop_files E w d (PList ps) check nie kw))))"
    unfolding drop_files_paths_noannex [OF False] using assms by simp
  then show ?thesis by (rule count_list_mem)
qed

lemma segment_count_eq:
  assumes dist: "distinct (map (respath d) ps)"
    and rep: "\<And>opts. distinct (annex_reports E w d ps opts)"
    and own: "\<And>opts. p \<in> set (annex_reports E w d ps opts) \<Longrightarrow> p \<in> respath d ` set ps"
  shows "count_list (map r_path (yielded (fst (drop_files E w d (PList ps) check nie kw)))) p
           = count_list (map (respath d) ps) p"
proof (cases "has_drop E w d")
  case True
  define opts where "opts = (if \<not> check then [''--force''] else [])"
  define reps where "reps = annex_reports E w d ps opts"
  have paths: "map r_path (yielded (fst (drop_files E w d (PList ps) check nie kw)))
                 = reps @ filter (\<lambda>q. q \<notin> set reps) (map (respath d) ps)"
    unfolding reps_def opts_def by (rule drop_files_paths_annex [OF True])
  have d1: "distinct reps" unfolding reps_def by (rule rep)
  have d2: "distinct (filter (\<lambda>q. q \<notin> set reps) (map (respath d) ps))"
    using dist by (rule distinct_filter)
  have o: "p \<in> set reps \<Longrightarrow> p \<in> respath d ` set ps"
    unfolding reps_def by (rule own)
  show ?thesis
    unfolding paths using o
    by (auto simp: count_list_distinct [OF d1] count_list_distinct [OF d2]
        count_list_distinct [OF dist])
next
  case False
  then show ?thesis by (simp add: drop_files_paths_noannex)
qed

lemma drop_datasets_Cons:
  "fst (drop_datasets E w ((d, ps) # rest) check kw)
     = fst (drop_files E w d (PList ps) check False kw)
       @ fst (drop_datasets E (snd (drop_files E w d (PList ps) check False kw)) rest check kw)"
  by (simp add: split_beta)

lemma loop_count_ge1:
  assumes "(d, ps) \<in> set cbd" and "q \<in> set ps"
  shows "1 \<le> count_list (map r_path (yielded (fst (drop_datasets E w cbd check kw))))
                 (respath d q)"
  using assms(1)
proof (induction cbd arbitrary: w)
  case Nil
  then show ?case by simp
next
  case (Cons g rest)
  obtain d' ps' where g: "g = (d', ps')" by (cases g)
  show ?case
  proof (cases "(d, ps) = g")
    case True
    then have "1 \<le> count_list (map r_path (yielded (fst (drop_files E w d' (PList ps') check False kw))))
                      (respath d q)"
      using segment_count_ge1 [OF assms(2), of E w d check False kw] g by simp
    then show ?thesis
      unfolding g drop_datasets_Cons by (simp add: yielded_append)
  next
    case False
    then have "(d, ps) \<in> set rest" using Cons.prems by simp
    from Cons.IH [OF this]
    show ?thesis
      unfolding g drop_datasets_Cons by (simp add: yielded_append trans_le_add2)
  qed
qed

lemma reports_once_Cons: "reports_once E (g # rest) R \<Longrightarrow> reports_once E rest R"
  by (simp add: reports_once_def)

lemma loop_count_eq:
  assumes "reports_once E cbd R"
    and "\<forall>(d, ps) \<in> set cbd. distinct (map (respath d) ps)"
    and "p \<in> set R"
  shows "count_list (map r_path (yielded (fst (drop_datasets E w cbd check kw)))) p
           = count_list (concat (map (\<lambda>(d, ps). map (respath d) ps) cbd)) p"
  using assms(1,2)
proof (induction cbd arbitrary: w)
  case Nil
  then show ?case by simp
next
  case (Cons g rest)
  obtain d ps where g: "g = (d, ps)" by (cases g)
  have mem: "(d, ps) \<in> set (g # rest)" using g by simp
  have dist: "distinct (map (respath d) ps)"
    using Cons.prems(2) g by simp
  have rep: "\<And>v opts. distinct (annex_reports E v d ps opts)"
    using Cons.prems(1) mem unfolding reports_once_def by blast
  have own: "\<And>v opts. p \<in> set (annex_reports E v d ps opts) \<Longrightarrow> p \<in> respath d ` set ps"
    using Cons.prems(1) mem assms(3) unfolding reports_once_def by blast
  have seg: "count_list (map r_path (yielded (fst (drop_files E w d (PList ps) check False kw)))) p
               = count_list (map (respath d) ps) p"
    by (rule segment_count_eq [OF dist rep own])
  have rest: "count_list (map r_path (yielded (fst (drop_datasets E
                 (snd (drop_files E w d (PList ps) check False kw)) rest check kw)))) p
               = count_list (concat (map (\<lambda>(d, ps). map (respath d) ps) rest)) p"
    using Cons.IH [OF reports_once_Cons [OF Cons.prems(1)]] Cons.prems(2) by simp
  show ?case
    unfolding g drop_datasets_Cons by (simp add: yielded_append seg rest)
qed

lemma r_path_results_from_paths: "map r_path (results_from_paths ps st msg kw) = ps"
  by (induction ps) (simp_all add: results_from_paths_def get_status_dict_def)

lemma after_prep_completed:
  assumes "after_prep E w dataset check if_dirty cbd un = (evs, None, w')"
  shows "\<exists>w1. handle_dirty_datasets E w (map fst cbd) if_dirty dataset = Inr w1 \<and>
          evs = map Yield (results_from_paths un Notneeded ''path does not exist: %s''
                            (res_kwargs dataset))
                @ [HandleDirty (map fst cbd) if_dirty dataset]
                @ fst (drop_datasets E w1 cbd check (res_kwargs dataset))"
  using assms
  by (auto simp: after_prep_def Let_def split_beta split: sum.splits)

lemma Drop_call_prep:
  "prep E w (effective_path path0 dataset) dataset recursive recursion_limit = Inr (cbd, un) \<Longrightarrow>
   Drop_call E w path0 dataset recursive recursion_limit check if_dirty
     = after_prep E w dataset check if_dirty cbd un"
  by (simp add: Drop_call_def)

lemma repo_drops_Yields: "repo_drops (map (\<lambda>x. Yield (f x)) xs) = []"
  by (induction xs) simp_all

lemma repo_drops_Yields_comp: "repo_drops (map (Yield \<circ> f) xs) = []"
  by (induction xs) simp_all

lemma yielded_Yields_comp: "yielded (map (Yield \<circ> f) xs) = map f xs"
  by (induction xs) simp_all

lemma guard_calls_Yields: "guard_calls (map (\<lambda>x. Yield (f x)) xs) = 0"
  by (induction xs) simp_all

lemma noinfo_result_mem:
  "q \<in> set ps \<Longrightarrow> \<not> reported dict (respath d q) \<Longrightarrow>
   noinfo_result E w d (respath d q) a b c kw
     \<in> set (results_from_annex_noinfo E w d ps dict a b c kw)"
  by (induction ps) auto

lemma drop_files_annex_world:
  "has_drop E w d \<Longrightarrow>
   snd (drop_files E w d paths check nie kw)
     = snd (repo_drop E w d (assure_list paths) (if \<not> check then [''--force''] else []))"
  by (simp add: drop_files_annex Let_def)

lemma drop_files_annex_events:
  "has_drop E w d \<Longrightarrow>
   fst (drop_files E w d paths check nie kw)
     = RepoDrop d (assure_list paths) (if \<not> check then [''--force''] else [])
       # map Yield (map (\<lambda>raw. annexjson2result E raw d File (default_action kw))
           (fst (repo_drop E w d (assure_list paths) (if \<not> check then [''--force''] else []))))
       @ map Yield (results_from_annex_noinfo E (snd (drop_files E w d paths check nie kw)) d
           (assure_list paths)
           (snd (annex_results E d (default_action kw)
              (fst (repo_drop E w d (assure_list paths) (if \<not> check then [''--force''] else [])))
              []))
           ''could not drop some content in %s %s'' ''nothing to drop from %s''
           ''no annex'ed content'' (default_action kw))"
  by (simp add: drop_files_annex Let_def annex_results_fst)

lemma effective_path_root:
  "dataset_truthy dataset \<Longrightarrow> \<not> path_truthy path0 \<Longrightarrow> dataset_path dataset = Some root \<Longrightarrow>
   effective_path path0 dataset = PStr root"
  by (simp add: effective_path_def)

lemma effective_path_PStr:
  "dataset_path dataset = Some root \<Longrightarrow> effective_path (PStr root) dataset = PStr root"
  by (simp add: effective_path_def)

lemma handle_dirty_fail:
  "d \<in> set dpaths \<Longrightarrow> is_dirty E w d \<Longrightarrow>
   \<exists>d'. handle_dirty_datasets E w dpaths Fail base = Inl (DirtyDataset d')"
proof -
  assume "d \<in> set dpaths" and "is_dirty E w d"
  then have "filter (is_dirty E w) dpaths \<noteq> []"
    by (auto simp: filter_empty_conv)
  then show ?thesis
    by (cases "filter (is_dirty E w) dpaths") (simp_all add: handle_dirty_datasets_def)
qed

lemma results_from_paths_props:
  "r \<in> set (results_from_paths ps Notneeded ''path does not exist: %s'' kw) \<Longrightarrow>
   r_status r = Notneeded \<and> message_text r = Some (''path does not exist: '' @ r_path r)"
  by (auto simp: results_from_paths_def get_status_dict_def message_text_def)

lemma after_prep_events:
  "\<exists>rest. fst (after_prep E w dataset check if_dirty cbd un)
     = map Yield (results_from_paths un Notneeded ''path does not exist: %s'' (res_kwargs dataset))
       @ HandleDirty (map fst cbd) if_dirty dataset # rest"
  by (simp add: after_prep_def Let_def split_beta split: sum.splits)

lemma drop_datasets_runs:
  "fst (drop_datasets E w cbd check kw)
     = concat (map (\<lambda>(d, v, seg). seg) (dataset_runs E w cbd check kw))"
  by (induction cbd arbitrary: w) (auto simp: split_beta)

lemma dataset_runs_keys: "map fst (dataset_runs E w cbd check kw) = map fst cbd"
  by (induction cbd arbitrary: w) (auto simp: split_beta)

lemma dataset_runs_noannex:
  "(d, v, seg) \<in> set (dataset_runs E w cbd check kw) \<Longrightarrow> \<not> has_drop E v d \<Longrightarrow>
   e \<in> set seg \<Longrightarrow> \<exists>r. e = Yield r \<and> r_status r = Notneeded"
proof (induction cbd arbitrary: w)
  case Nil
  then show ?case by simp
next
  case (Cons g rest)
  obtain d0 ps0 where g: "g = (d0, ps0)" by (cases g)
  from Cons.prems(1) consider
    (head) "d = d0" "v = w" "seg = fst (drop_files E w d0 (PList ps0) check False kw)"
    | (tail) "(d, v, seg) \<in> set (dataset_runs E (snd (drop_files E w d0 (PList ps0) check False kw))
                                   rest check kw)"
    unfolding g by (auto simp: split_beta)
  then show ?case
  proof cases
    case head
    then show ?thesis
      using Cons.prems(2,3) by (auto simp: drop_files_noannex get_status_dict_def)
  next
    case tail
    then show ?thesis using Cons.IH Cons.prems(2,3) by blast
  qed
qed

lemma distinct_concat_each:
  "distinct (concat (map f xs)) \<Longrightarrow> x \<in> set xs \<Longrightarrow> distinct (f x)"
  by (induction xs) auto

lemma respath_abs: "isabs p \<Longrightarrow> respath d p = p"
  by (simp add: respath_def)

section \<open>The claims\<close>

subsection \<open>C1\<close>

text \<open>
  Claim C1 as stated fails: nothing in the command or in
  \<^verbatim>\<open>_drop_files\<close> removes a path that comes twice, so a request that names a path
  twice is answered with two results for it, for a path that does not exist as well as
  for a path of a dataset without annex.
\<close>

theorem requested_path_reported_twice:
  "fst (snd (Drop_call demo_env plain_world twice_request (DObj ''/ds'') False None True Ignore))
     = None \<and>
   count_path ''/ds/a''
     (yielded (fst (Drop_call demo_env plain_world twice_request (DObj ''/ds'')
                      False None True Ignore))) = 2 \<and>
   count_path ''/ds/missing.txt''
     (yielded (fst (Drop_call demo_env plain_world twice_request (DObj ''/ds'')
                      False None True Ignore))) = 2"
  by code_simp

text \<open>
  Claim C1, amended: in a run that completes, every path that the grouping hands to the
  command (an unavailable path, or a path of a dataset, as the path of its result) is the
  path of at least one result that the run yields; and of exactly one, when these paths
  are pairwise distinct and the annex reports no path twice and, of the requested paths,
  only paths of the dataset it was called for.
\<close>

theorem every_requested_path_reported:
  assumes prep: "prep E w (effective_path path0 dataset) dataset recursive recursion_limit
                   = Inr (cbd, un)"
    and run: "Drop_call E w path0 dataset recursive recursion_limit check if_dirty
                = (evs, None, w')"
    and req: "p \<in> set (requested_paths cbd un)"
  shows "1 \<le> count_path p (yielded evs) \<and>
         (distinct (requested_paths cbd un) \<and> reports_once E cbd (requested_paths cbd un)
            \<longrightarrow> count_path p (yielded evs) = 1)"
proof -
  define kw where "kw = res_kwargs dataset"
  obtain w1 where evs: "evs = map Yield (results_from_paths un Notneeded
                                          ''path does not exist: %s'' kw)
                              @ [HandleDirty (map fst cbd) if_dirty dataset]
                              @ fst (drop_datasets E w1 cbd check kw)"
    unfolding kw_def
    using after_prep_completed [of E w dataset check if_dirty cbd un evs w'] run
    by (auto simp: Drop_call_prep [OF prep])
  define loop where "loop = map r_path (yielded (fst (drop_datasets E w1 cbd check kw)))"
  have count: "count_path p (yielded evs) = count_list un p + count_list loop p"
    unfolding evs loop_def
    by (simp add: count_path_count_list yielded_append yielded_map_Yield
        r_path_results_from_paths)
  have ge: "1 \<le> count_path p (yielded evs)"
  proof (cases "p \<in> set un")
    case True
    then show ?thesis unfolding count using count_list_mem [of p un] by simp
  next
    case False
    then obtain d ps q where g: "(d, ps) \<in> set cbd" and q: "q \<in> set ps"
      and p: "p = respath d q"
      using req by (auto simp: requested_paths_def)
    have "1 \<le> count_list loop p"
      unfolding loop_def p by (rule loop_count_ge1 [OF g q])
    then show ?thesis unfolding count by simp
  qed
  have eq: "count_path p (yielded evs) = 1"
    if dist: "distinct (requested_paths cbd un)"
      and once: "reports_once E cbd (requested_paths cbd un)"
  proof -
    have "distinct (concat (map (\<lambda>(d, ps). map (respath d) ps) cbd))"
      using dist by (simp add: requested_paths_def)
    then have each: "\<forall>(d, ps) \<in> set cbd. distinct (map (respath d) ps)"
      using distinct_concat_each [of "\<lambda>(d, ps). map (respath d) ps" cbd] by fastforce
    have "count_list loop p = count_list (concat (map (\<lambda>(d, ps). map (respath d) ps) cbd)) p"
      unfolding loop_def by (rule loop_count_eq [OF once each req])
    then have "count_path p (yielded evs) = count_list (requested_paths cbd un) p"
      unfolding count by (simp add: requested_paths_def)
    then show ?thesis
      using req by (simp add: count_list_distinct [OF dist])
  qed
  show ?thesis using ge eq by blast
qed

lemma demo_annex_reports:
  "annex_reports demo_env w d ps opts = map (respath d) (filter (\<lambda>p. p \<in> set (content w)) ps)"
  by (simp add: annex_reports_def demo_env_def comp_def)

lemma demo_reports_once:
  assumes "distinct (concat (map (\<lambda>(d, ps). map (respath d) ps) cbd))"
  shows "reports_once demo_env cbd R"
  unfolding reports_once_def
proof (intro allI impI conjI ballI)
  fix w :: demo_world and opts d ps
  assume g: "(d, ps) \<in> set cbd"
  have "distinct (map (respath d) ps)"
    using distinct_concat_each [OF assms g] by simp
  then show "distinct (annex_reports demo_env w d ps opts)"
    unfolding demo_annex_reports by (simp add: distinct_map_filter)
next
  fix w :: demo_world and opts d ps r
  assume "r \<in> set (annex_reports demo_env w d ps opts)"
  then show "r \<in> respath d ` set ps"
    unfolding demo_annex_reports by auto
qed

text \<open>The theorem at work in the small world.\<close>

theorem every_requested_path_reported_witness:
  "prep demo_env annex_world (effective_path mixed_request (DObj ''/ds'')) (DObj ''/ds'') False None
     = Inr ([(''/ds'', [''/ds/a'', ''/ds/b'', ''/ds/c'', ''/ds/dir''])], [''/ds/zz'']) \<and>
   fst (snd (Drop_call demo_env annex_world mixed_request (DObj ''/ds'') False None True Ignore))
     = None \<and>
   distinct (requested_paths [(''/ds'', [''/ds/a'', ''/ds/b'', ''/ds/c'', ''/ds/dir''])]
               [''/ds/zz'']) \<and>
   reports_once demo_env [(''/ds'', [''/ds/a'', ''/ds/b'', ''/ds/c'', ''/ds/dir''])]
     (requested_paths [(''/ds'', [''/ds/a'', ''/ds/b'', ''/ds/c'', ''/ds/dir''])] [''/ds/zz'']) \<and>
   count_path ''/ds/dir''
     (yielded (fst (Drop_call demo_env annex_world mixed_request (DObj ''/ds'')
                      False None True Ignore))) = 1"
proof -
  define cbd where "cbd = [(''/ds'', [''/ds/a'', ''/ds/b'', ''/ds/c'', ''/ds/dir''])]"
  define un where "un = [''/ds/zz'']"
  define run where
    "run = Drop_call demo_env annex_world mixed_request (DObj ''/ds'') False None True Ignore"
  have prep: "prep demo_env annex_world (effective_path mixed_request (DObj ''/ds''))
                (DObj ''/ds'') False None = Inr (cbd, un)"
    unfolding cbd_def un_def by code_simp
  have none: "fst (snd run) = None"
    unfolding run_def by code_simp
  have run: "Drop_call demo_env annex_world mixed_request (DObj ''/ds'') False None True Ignore
               = (fst run, None, snd (snd run))"
    using none unfolding run_def by (metis prod.collapse)
  have dist: "distinct (requested_paths cbd un)"
    unfolding cbd_def un_def by code_simp
  have req: "''/ds/dir'' \<in> set (requested_paths cbd un)"
    unfolding cbd_def un_def by code_simp
  have once: "reports_once demo_env cbd (requested_paths cbd un)"
    using dist by (intro demo_reports_once) (simp add: requested_paths_def)
  have "count_path ''/ds/dir'' (yielded (fst run)) = 1"
    using every_requested_path_reported [OF prep run req] dist once by blast
  then show ?thesis
    using prep none dist once unfolding cbd_def un_def run_def by blast
qed

subsection \<open>C2\<close>

text \<open>
  Claim C2: for a dataset whose repository can drop, \<^verbatim>\<open>_drop_files\<close> calls the annex
  exactly once, with no option when \<open>check\<close> is true and with the one option
  \<^verbatim>\<open>--force\<close> when \<open>check\<close> is false.
\<close>

theorem force_option_iff_nocheck: 
  "has_drop E w d \<Longrightarrow>
   repo_drops (fst (drop_files E w d paths check noannex_iserror kw))
     = [(d, assure_list paths, if check then [] else [''--force''])]"
  by (simp add: drop_files_annex_events repo_drops_append repo_drops_map_Yield
        repo_drops_Yields_comp)

text \<open>The theorem at work in the small world.\<close>

theorem force_option_iff_nocheck_witness:
  "has_drop demo_env annex_world ''/ds'' \<and>
   repo_drops (fst (drop_files demo_env annex_world ''/ds'' (PList [''/ds/a'']) False False
                      no_kwargs))
     = [(''/ds'', [''/ds/a''], [''--force''])] \<and>
   repo_drops (fst (drop_files demo_env annex_world ''/ds'' (PList [''/ds/a'']) True False
                      no_kwargs))
     = [(''/ds'', [''/ds/a''], [])]"
proof -
  have h: "has_drop demo_env annex_world ''/ds''" by code_simp
  show ?thesis
    using h force_option_iff_nocheck [OF h, of "PList [''/ds/a'']" False False no_kwargs]
      force_option_iff_nocheck [OF h, of "PList [''/ds/a'']" True False no_kwargs]
    by simp
qed

subsection \<open>C3\<close>

text \<open>
  Claim C3: for a dataset whose repository cannot drop, \<^verbatim>\<open>_drop_files\<close> yields
  results only, one for every requested path in the order of the request, with the status
  \<open>impossible\<close> when \<open>noannex_iserror\<close> is true and \<open>notneeded\<close> when it is false; it
  does not call the annex and leaves the world as it is.
\<close>

theorem no_annex_one_result_per_path:
  "\<not> has_drop E w d \<Longrightarrow>
   fst (drop_files E w d paths check noannex_iserror kw)
     = map Yield (yielded (fst (drop_files E w d paths check noannex_iserror kw))) \<and>
   map (\<lambda>r. (r_path r, r_status r)) (yielded (fst (drop_files E w d paths check noannex_iserror kw)))
     = map (\<lambda>p. (respath d p, if noannex_iserror then Impossible else Notneeded))
         (assure_list paths) \<and>
   repo_drops (fst (drop_files E w d paths check noannex_iserror kw)) = [] \<and>
   snd (drop_files E w d paths check noannex_iserror kw) = w"
  by (simp add: drop_files_noannex yielded_map_Yield' repo_drops_Yields
        get_status_dict_def comp_def)

text \<open>The theorem at work in the small world.\<close>

theorem no_annex_one_result_per_path_witness:
  "\<not> has_drop demo_env plain_world ''/ds'' \<and>
   map (\<lambda>r. (r_path r, r_status r))
     (yielded (fst (drop_files demo_env plain_world ''/ds'' (PList [''/ds/a'', ''b'']) True True
                      no_kwargs)))
     = [(''/ds/a'', Impossible), (''/ds/b'', Impossible)] \<and>
   map (\<lambda>r. (r_path r, r_status r))
     (yielded (fst (drop_files demo_env plain_world ''/ds'' (PList [''/ds/a'', ''b'']) True False
                      no_kwargs)))
     = [(''/ds/a'', Notneeded), (''/ds/b'', Notneeded)] \<and>
   repo_drops (fst (drop_files demo_env plain_world ''/ds'' (PList [''/ds/a'', ''b'']) True False
                      no_kwargs)) = []"
proof -
  have h: "\<not> has_drop demo_env plain_world ''/ds''" by code_simp
  have a: "respath ''/ds'' ''/ds/a'' = ''/ds/a''" by code_simp
  have b: "respath ''/ds'' ''b'' = ''/ds/b''" by code_simp
  show ?thesis
    using h no_annex_one_result_per_path [OF h, of "PList [''/ds/a'', ''b'']" True True no_kwargs]
      no_annex_one_result_per_path [OF h, of "PList [''/ds/a'', ''b'']" True False no_kwargs]
    by (simp add: a b)
qed

subsection \<open>C4\<close>

text \<open>
  Claim C4: with \<open>if_dirty = fail\<close> and a dirty dataset among the grouped ones, the run
  ends with the dirty-dataset error; its events are the results for the unavailable paths
  followed by the one call of the guard, the annex is never called and the world is as
  before.
\<close>

theorem dirty_fail_aborts_before_drop:
  assumes prep: "prep E w (effective_path path0 dataset) dataset recursive recursion_limit
                   = Inr (cbd, un)"
    and grouped: "d \<in> set (map fst cbd)"
    and dirty: "is_dirty E w d"
    and run: "Drop_call E w path0 dataset recursive recursion_limit check Fail = (evs, err, w')"
  shows "(\<exists>d'. err = Some (DirtyDataset d')) \<and>
         evs = map Yield (yielded evs) @ [HandleDirty (map fst cbd) Fail dataset] \<and>
         map r_path (yielded evs) = un \<and>
         repo_drops evs = [] \<and>
         guard_calls evs = 1 \<and>
         w' = w"
proof -
  obtain d' where g: "handle_dirty_datasets E w (map fst cbd) Fail dataset = Inl (DirtyDataset d')"
    using handle_dirty_fail [OF grouped dirty] by blast
  have "Drop_call E w path0 dataset recursive recursion_limit check Fail
          = (map Yield (results_from_paths un Notneeded ''path does not exist: %s''
                          (res_kwargs dataset))
               @ [HandleDirty (map fst cbd) Fail dataset],
             Some (DirtyDataset d'), w)"
    by (simp add: Drop_call_prep [OF prep] after_prep_def g)
  with run have evs: "evs = map Yield (results_from_paths un Notneeded ''path does not exist: %s''
                                        (res_kwargs dataset))
                              @ [HandleDirty (map fst cbd) Fail dataset]"
    and err: "err = Some (DirtyDataset d')" and w': "w' = w"
    by simp_all
  show ?thesis
    unfolding evs err w'
    by (simp add: yielded_append yielded_map_Yield repo_drops_append repo_drops_map_Yield
        guard_calls_append guard_calls_map_Yield r_path_results_from_paths)
qed

text \<open>The theorem at work in the small world.\<close>

theorem dirty_fail_aborts_before_drop_witness:
  "is_dirty demo_env dirty_world ''/ds'' \<and>
   fst (snd (Drop_call demo_env dirty_world mixed_request (DObj ''/ds'') False None True Fail))
     = Some (DirtyDataset ''/ds'') \<and>
   map r_path (yielded (fst (Drop_call demo_env dirty_world mixed_request (DObj ''/ds'')
                               False None True Fail))) = [''/ds/zz''] \<and>
   repo_drops (fst (Drop_call demo_env dirty_world mixed_request (DObj ''/ds'')
                      False None True Fail)) = [] \<and>
   guard_calls (fst (Drop_call demo_env dirty_world mixed_request (DObj ''/ds'')
                       False None True Fail)) = 1"
proof -
  define cbd where "cbd = [(''/ds'', [''/ds/a'', ''/ds/b'', ''/ds/c'', ''/ds/dir''])]"
  define un where "un = [''/ds/zz'']"
  define run where
    "run = Drop_call demo_env dirty_world mixed_request (DObj ''/ds'') False None True Fail"
  have prep: "prep demo_env dirty_world (effective_path mixed_request (DObj ''/ds''))
                (DObj ''/ds'') False None = Inr (cbd, un)"
    unfolding cbd_def un_def by code_simp
  have grouped: "''/ds'' \<in> set (map fst cbd)"
    unfolding cbd_def by simp
  have dirty: "is_dirty demo_env dirty_world ''/ds''" by code_simp
  have run: "Drop_call demo_env dirty_world mixed_request (DObj ''/ds'') False None True Fail
               = (fst run, fst (snd run), snd (snd run))"
    unfolding run_def by simp
  have err: "fst (snd run) = Some (DirtyDataset ''/ds'')"
    unfolding run_def by code_simp
  show ?thesis
    using dirty_fail_aborts_before_drop [OF prep grouped dirty run] dirty err unfolding run_def un_def by simp
qed

subsection \<open>C5\<close>

text \<open>
  Claim C5: the events of a run start with one result for every unavailable path, in
  their order, each with the status \<open>notneeded\<close> and the message
  "path does not exist: <path>"; the call of the guard follows them, and everything else
  comes after it.
\<close>

theorem unavailable_paths_reported_first:
  assumes prep: "prep E w (effective_path path0 dataset) dataset recursive recursion_limit
                   = Inr (cbd, un)"
    and run: "Drop_call E w path0 dataset recursive recursion_limit check if_dirty
                = (evs, err, w')"
  shows "\<exists>rs rest.
           evs = map Yield rs @ HandleDirty (map fst cbd) if_dirty dataset # rest \<and>
           map r_path rs = un \<and>
           (\<forall>r \<in> set rs. r_status r = Notneeded \<and>
                          message_text r = Some (''path does not exist: '' @ r_path r))"
proof -
  define rs where "rs = results_from_paths un Notneeded ''path does not exist: %s''
                          (res_kwargs dataset)"
  have "\<exists>rest. fst (after_prep E w dataset check if_dirty cbd un)
     = map Yield rs @ HandleDirty (map fst cbd) if_dirty dataset # rest"
    unfolding rs_def by (rule after_prep_events)
  then obtain rest where "fst (after_prep E w dataset check if_dirty cbd un)
     = map Yield rs @ HandleDirty (map fst cbd) if_dirty dataset # rest" ..
  then have "evs = map Yield rs @ HandleDirty (map fst cbd) if_dirty dataset # rest"
    using run by (simp add: Drop_call_prep [OF prep])
  moreover have "map r_path rs = un"
    unfolding rs_def by (rule r_path_results_from_paths)
  moreover have "\<forall>r \<in> set rs. r_status r = Notneeded \<and>
                          message_text r = Some (''path does not exist: '' @ r_path r)"
    unfolding rs_def using results_from_paths_props by blast
  ultimately show ?thesis by blast
qed

text \<open>The theorem at work in the small world.\<close>

theorem unavailable_paths_reported_first_witness:
  "\<exists>rs rest.
     fst (Drop_call demo_env annex_world mixed_request (DObj ''/ds'') False None True Ignore)
       = map Yield rs @ HandleDirty [''/ds''] Ignore (DObj ''/ds'') # rest \<and>
     map r_path rs = [''/ds/zz''] \<and>
     map r_status rs = [Notneeded] \<and>
     map message_text rs = [Some ''path does not exist: /ds/zz'']"
proof -
  define cbd where "cbd = [(''/ds'', [''/ds/a'', ''/ds/b'', ''/ds/c'', ''/ds/dir''])]"
  define un where "un = [''/ds/zz'']"
  define run where
    "run = Drop_call demo_env annex_world mixed_request (DObj ''/ds'') False None True Ignore"
  have prep: "prep demo_env annex_world (effective_path mixed_request (DObj ''/ds''))
                (DObj ''/ds'') False None = Inr (cbd, un)"
    unfolding cbd_def un_def by code_simp
  have run: "Drop_call demo_env annex_world mixed_request (DObj ''/ds'') False None True Ignore
               = (fst run, fst (snd run), snd (snd run))"
    unfolding run_def by simp
  obtain rs rest where
    evs: "fst run = map Yield rs @ HandleDirty (map fst cbd) Ignore (DObj ''/ds'') # rest"
    and paths: "map r_path rs = un"
    and each: "\<forall>r \<in> set rs. r_status r = Notneeded \<and>
                 message_text r = Some (''path does not exist: '' @ r_path r)"
    using unavailable_paths_reported_first [OF prep run] by blast
  obtain r where rs: "rs = [r]" and r: "r_path r = ''/ds/zz''"
    using paths unfolding un_def by auto
  have "map r_status rs = [Notneeded]"
    and "map message_text rs = [Some ''path does not exist: /ds/zz'']"
    using each rs r by simp_all
  then show ?thesis
    using evs paths unfolding run_def cbd_def un_def by auto
qed

subsection \<open>C6\<close>

text \<open>
  Claim C6 as stated fails in its third message: the call in
  \<^verbatim>\<open>_drop_files\<close> passes \<^verbatim>\<open>noinfo_file_msg="no annex'ed content"\<close>, so a silent path
  that is neither a directory nor a tracked file without content gets that message and
  not "no content store for this path".
\<close>

theorem silent_file_message_differs:
  "map message_text
     (yielded (fst (drop_files demo_env annex_world ''/ds'' (PList [''/ds/c'']) True False
                      no_kwargs)))
     = [Some ''no annex'ed content''] \<and>
   map message_text
     (yielded (fst (drop_files demo_env annex_world ''/ds'' (PList [''/ds/c'']) True False
                      no_kwargs)))
     \<noteq> [Some ''no content store for this path'']"
  by code_simp

text \<open>
  Claim C6, amended: for every requested path that the annex stayed silent about, a
  result with that path is yielded: \<open>impossible\<close> with the message
  "could not drop some content in <dataset> <path>" if the path is a directory;
  \<open>notneeded\<close> with "nothing to drop from <path>" if it is a tracked file without
  content; and \<open>notneeded\<close> with "no annex'ed content" otherwise.
\<close>

theorem silent_paths_reconciled:
  assumes annex: "has_drop E w d"
    and req: "q \<in> set (assure_list paths)"
    and silent: "respath d q \<notin> set (annex_reports E w d (assure_list paths)
                                      (if \<not> check then [''--force''] else []))"
  shows "\<exists>r \<in> set (yielded (fst (drop_files E w d paths check noannex_iserror kw))).
           r_path r = respath d q \<and>
           (if isdir E (snd (drop_files E w d paths check noannex_iserror kw)) (respath d q)
            then r_status r = Impossible \<and>
                 message_text r
                   = Some (''could not drop some content in '' @ d @ '' '' @ respath d q)
            else if tracked_contentless E (snd (drop_files E w d paths check noannex_iserror kw))
                      (respath d q)
            then r_status r = Notneeded \<and>
                 message_text r = Some (''nothing to drop from '' @ respath d q)
            else r_status r = Notneeded \<and>
                 message_text r = Some ''no annex'ed content'')"
proof -
  define w' where "w' = snd (drop_files E w d paths check noannex_iserror kw)"
  define raws where "raws = fst (repo_drop E w d (assure_list paths)
                                   (if \<not> check then [''--force''] else []))"
  define dict where "dict = snd (annex_results E d (default_action kw) raws [])"
  define r where "r = noinfo_result E w' d (respath d q)
                        ''could not drop some content in %s %s'' ''nothing to drop from %s''
                        ''no annex'ed content'' (default_action kw)"
  have "\<not> reported dict (respath d q)"
    using silent unfolding dict_def raws_def annex_reports_def
    by (simp add: annex_results_reported)
  then have "r \<in> set (results_from_annex_noinfo E w' d (assure_list paths) dict
                 ''could not drop some content in %s %s'' ''nothing to drop from %s''
                 ''no annex'ed content'' (default_action kw))"
    unfolding r_def using req by (intro noinfo_result_mem)
  then have mem: "r \<in> set (yielded (fst (drop_files E w d paths check noannex_iserror kw)))"
    unfolding drop_files_annex_events [OF annex]
    by (simp add: yielded_append yielded_map_Yield w'_def dict_def raws_def)
  have props: "r_path r = respath d q \<and>
     (if isdir E w' (respath d q)
      then r_status r = Impossible \<and>
           message_text r = Some (''could not drop some content in '' @ d @ '' '' @ respath d q)
      else if tracked_contentless E w' (respath d q)
      then r_status r = Notneeded \<and>
           message_text r = Some (''nothing to drop from '' @ respath d q)
      else r_status r = Notneeded \<and> message_text r = Some ''no annex'ed content'')"
    unfolding r_def
    by (simp add: noinfo_result_def get_status_dict_def message_text_def)
  show ?thesis
    using mem props unfolding w'_def by blast
qed

text \<open>The theorem at work in the small world.\<close>

theorem silent_paths_reconciled_witness:
  "has_drop demo_env annex_world ''/ds'' \<and>
   (\<exists>r \<in> set (yielded (fst (drop_files demo_env annex_world ''/ds'' mixed_request True False
                               no_kwargs))).
      r_path r = ''/ds/dir'' \<and> r_status r = Impossible \<and>
      message_text r = Some ''could not drop some content in /ds /ds/dir'')"
proof -
  have h: "has_drop demo_env annex_world ''/ds''" by code_simp
  have q: "''/ds/dir'' \<in> set (assure_list mixed_request)" by code_simp
  have s: "respath ''/ds'' ''/ds/dir''
             \<notin> set (annex_reports demo_env annex_world ''/ds'' (assure_list mixed_request)
                      (if \<not> True then [''--force''] else []))"
    by code_simp
  have r: "respath ''/ds'' ''/ds/dir'' = ''/ds/dir''" by code_simp
  have d: "isdir demo_env (snd (drop_files demo_env annex_world ''/ds'' mixed_request True False
                                  no_kwargs)) ''/ds/dir''"
    by code_simp
  show ?thesis
    using h silent_paths_reconciled [OF h q s, of False no_kwargs] d by (simp add: r)
qed

subsection \<open>C7\<close>

text \<open>
  Claim C7 as stated fails: the message of the results for a dataset
  without annex is the literal \<^verbatim>\<open>"no annex'ed content"\<close> of line 86, not
  "no content store for this path".
\<close>

theorem no_annex_message_differs:
  "map message_text
     (yielded (fst (drop_files demo_env plain_world ''/ds'' (PList [''/ds/a'']) True False
                      no_kwargs)))
     = [Some ''no annex'ed content''] \<and>
   map message_text
     (yielded (fst (drop_files demo_env plain_world ''/ds'' (PList [''/ds/a'']) True False
                      no_kwargs)))
     \<noteq> [Some ''no content store for this path'']"
  by code_simp

text \<open>
  Claim C7, amended: for a dataset whose repository cannot drop, every result that
  \<^verbatim>\<open>_drop_files\<close> yields carries the message "no annex'ed content".
\<close>

theorem no_annex_message:
  "\<not> has_drop E w d \<Longrightarrow>
   map r_message (yielded (fst (drop_files E w d paths check noannex_iserror kw)))
     = map (\<lambda>p. Some (Msg ''no annex'ed content'')) (assure_list paths)"
  by (simp add: drop_files_noannex yielded_map_Yield' get_status_dict_def comp_def)

text \<open>The theorem at work in the small world.\<close>

theorem no_annex_message_witness:
  "\<not> has_drop demo_env plain_world ''/ds'' \<and>
   map r_message
     (yielded (fst (drop_files demo_env plain_world ''/ds'' (PList [''/ds/a'', ''b'']) True False
                      no_kwargs)))
     = [Some (Msg ''no annex'ed content''), Some (Msg ''no annex'ed content'')]"
proof -
  have h: "\<not> has_drop demo_env plain_world ''/ds''" by code_simp
  show ?thesis
    using h no_annex_message [OF h, of "PList [''/ds/a'', ''b'']" True False no_kwargs] by simp
qed

subsection \<open>C8\<close>

text \<open>
  Claim C8: when a dataset is given (its argument is true in Python's sense) and the path
  argument is empty, the path that goes to the grouping is the root path of the dataset,
  and the whole run is the run of the command with that path as its path argument.
\<close>

theorem empty_path_is_dataset_root:
  assumes "dataset_truthy dataset" and "\<not> path_truthy path0"
    and "dataset_path dataset = Some root"
  shows "effective_path path0 dataset = PStr root \<and>
         Drop_call E w path0 dataset recursive recursion_limit check if_dirty
           = Drop_call E w (PStr root) dataset recursive recursion_limit check if_dirty"
  using assms
  by (simp add: Drop_call_def effective_path_root effective_path_PStr)

text \<open>The theorem at work in the small world.\<close>

theorem empty_path_is_dataset_root_witness:
  "dataset_truthy (DObj ''/ds'') \<and> \<not> path_truthy (PList []) \<and>
   dataset_path (DObj ''/ds'') = Some ''/ds'' \<and>
   Drop_call demo_env annex_world (PList []) (DObj ''/ds'') False None True Ignore
     = Drop_call demo_env annex_world (PStr ''/ds'') (DObj ''/ds'') False None True Ignore"
  using empty_path_is_dataset_root [of "DObj ''/ds''" "PList []" "''/ds''" demo_env annex_world False None True Ignore]
  by simp

subsection \<open>C9\<close>

text \<open>
  Claim C9: the events of a run of the command whose guard passes are the results for
  the unavailable paths, the call of the guard and then, for every dataset of the
  grouping in turn, the events of \<^verbatim>\<open>_drop_files\<close> with \<open>noannex_iserror = False\<close>;
  every event for a dataset whose repository cannot drop is a result with the status
  \<open>notneeded\<close>, never \<open>impossible\<close>.
\<close>

theorem public_drop_never_strict:
  assumes prep: "prep E w (effective_path path0 dataset) dataset recursive recursion_limit
                   = Inr (cbd, un)"
    and guard: "handle_dirty_datasets E w (map fst cbd) if_dirty dataset = Inr w1"
  shows "fst (Drop_call E w path0 dataset recursive recursion_limit check if_dirty)
           = map Yield (results_from_paths un Notneeded ''path does not exist: %s''
                          (res_kwargs dataset))
             @ [HandleDirty (map fst cbd) if_dirty dataset]
             @ concat (map (\<lambda>(d, v, seg). seg)
                         (dataset_runs E w1 cbd check (res_kwargs dataset))) \<and>
         map fst (dataset_runs E w1 cbd check (res_kwargs dataset)) = map fst cbd \<and>
         (\<forall>(d, v, seg) \<in> set (dataset_runs E w1 cbd check (res_kwargs dataset)).
            \<not> has_drop E v d \<longrightarrow>
              (\<forall>e \<in> set seg. \<exists>r. e = Yield r \<and> r_status r = Notneeded \<and> r_status r \<noteq> Impossible))"
proof -
  have "fst (Drop_call E w path0 dataset recursive recursion_limit check if_dirty)
           = map Yield (results_from_paths un Notneeded ''path does not exist: %s''
                          (res_kwargs dataset))
             @ [HandleDirty (map fst cbd) if_dirty dataset]
             @ fst (drop_datasets E w1 cbd check (res_kwargs dataset))"
    by (simp add: Drop_call_prep [OF prep] after_prep_def guard Let_def split_beta)
  moreover have "\<forall>(d, v, seg) \<in> set (dataset_runs E w1 cbd check (res_kwargs dataset)).
            \<not> has_drop E v d \<longrightarrow>
              (\<forall>e \<in> set seg. \<exists>r. e = Yield r \<and> r_status r = Notneeded \<and> r_status r \<noteq> Impossible)"
    using dataset_runs_noannex by fastforce
  ultimately show ?thesis
    by (simp add: drop_datasets_runs dataset_runs_keys)
qed

text \<open>The theorem at work in the small world.\<close>

theorem public_drop_never_strict_witness:
  "handle_dirty_datasets demo_env plain_world [''/ds''] SaveBefore (DObj ''/ds'')
     = Inr plain_world \<and>
   \<not> has_drop demo_env plain_world ''/ds'' \<and>
   map r_status
     (yielded (fst (Drop_call demo_env plain_world (PList [''/ds/a'', ''/ds/b'']) (DObj ''/ds'')
                      False None True SaveBefore)))
     = [Notneeded, Notneeded]"
proof -
  define cbd where "cbd = [(''/ds'', [''/ds/a'', ''/ds/b''])]"
  define kw where "kw = res_kwargs (DObj ''/ds'')"
  define seg where "seg = fst (drop_files demo_env plain_world ''/ds''
                                 (PList [''/ds/a'', ''/ds/b'']) True False kw)"
  have prep: "prep demo_env plain_world (effective_path (PList [''/ds/a'', ''/ds/b''])
                (DObj ''/ds'')) (DObj ''/ds'') False None = Inr (cbd, [])"
    unfolding cbd_def by code_simp
  have guard: "handle_dirty_datasets demo_env plain_world (map fst cbd) SaveBefore (DObj ''/ds'')
                 = Inr plain_world"
    unfolding cbd_def by code_simp
  have h: "\<not> has_drop demo_env plain_world ''/ds''" by code_simp
  have runs: "dataset_runs demo_env plain_world cbd True kw = [(''/ds'', plain_world, seg)]"
    unfolding cbd_def seg_def by (simp add: split_beta)
  note inst = public_drop_never_strict [OF prep guard, of True, folded kw_def, unfolded runs]
  have evs: "fst (Drop_call demo_env plain_world (PList [''/ds/a'', ''/ds/b'']) (DObj ''/ds'')
                    False None True SaveBefore)
               = [HandleDirty [''/ds''] SaveBefore (DObj ''/ds'')] @ seg"
    using inst by (simp add: results_from_paths_def cbd_def)
  have all: "\<forall>e \<in> set seg. \<exists>r. e = Yield r \<and> r_status r = Notneeded"
    using inst h by auto
  have len: "length seg = 2"
    unfolding seg_def by (simp add: drop_files_noannex [OF h])
  then obtain e1 e2 where seg2: "seg = [e1, e2]"
    by (cases seg; cases "tl seg") auto
  then obtain r1 r2 where "e1 = Yield r1" "r_status r1 = Notneeded"
    "e2 = Yield r2" "r_status r2 = Notneeded"
    using all by auto
  then have "map r_status (yielded ([HandleDirty [''/ds''] SaveBefore (DObj ''/ds'')] @ seg))
               = [Notneeded, Notneeded]"
    unfolding seg2 by simp
  then show ?thesis
    using guard h unfolding evs [symmetric] cbd_def by simp
qed

subsection \<open>C10\<close>

text \<open>
  Claim C10: \<^verbatim>\<open>_drop_files\<close> with one path that is not in a list runs as with the
  list of that one path.
\<close>

theorem single_path_is_singleton_list:
  "drop_files E w d (PStr p) check noannex_iserror kw
     = drop_files E w d (PList [p]) check noannex_iserror kw"
  by (simp add: drop_files_def)

text \<open>The theorem at work in the small world.\<close>

theorem single_path_is_singleton_list_witness:
  "drop_files demo_env annex_world ''/ds'' (PStr ''/ds/a'') True False no_kwargs
     = drop_files demo_env annex_world ''/ds'' (PList [''/ds/a'']) True False no_kwargs \<and>
   map r_path (yielded (fst (drop_files demo_env annex_world ''/ds'' (PStr ''/ds/a'') True False
                               no_kwargs))) = [''/ds/a'']"
proof -
  have "map r_path (yielded (fst (drop_files demo_env annex_world ''/ds'' (PList [''/ds/a''])
                                    True False no_kwargs))) = [''/ds/a'']"
    by code_simp
  then show ?thesis
    using single_path_is_singleton_list [of demo_env annex_world "''/ds''" "''/ds/a''" True False no_kwargs] by simp
qed

end
